theory Spec2Isabelle
  imports Complex_Main
begin

section \<open>The orbit camera controller of \<open>src/core\<close> (class \<open>Input\<close>)\<close>

text \<open>
  The class \<open>Input\<close> turns mouse and wheel events into targets of an orbiting camera,
  tells a click from a drag, resolves a click to an interactable scene node and
  smooths the camera toward its targets once per frame.

  JavaScript numbers are modelled as \<^typ>\<open>real\<close>: \<open>Math.PI\<close> is \<^term>\<open>pi\<close>,
  \<open>Math.sqrt\<close> is \<^term>\<open>sqrt\<close>, \<open>Math.max\<close> and \<open>Math.min\<close> are \<^term>\<open>max\<close> and
  \<^term>\<open>min\<close>. Rounding, infinities and NaN of IEEE doubles are outside the model.
  Object references are node identifiers; \<open>null\<close> and \<open>undefined\<close> are \<^term>\<open>None\<close>.
\<close>

subsection \<open>Data\<close>

type_synonym node = nat

text \<open>\<open>{ x, y }\<close> object literals and \<open>THREE.Vector2\<close>.\<close>

record point2 =
  px :: real
  py :: real

text \<open>\<open>THREE.Vector3\<close>.\<close>

record vector3 =
  vx :: real
  vy :: real
  vz :: real

text \<open>
  \<open>Vector3.lerp(v, alpha)\<close> of three.js adds \<open>(v - this) * alpha\<close> to every
  component of \<open>this\<close>.
\<close>

definition lerp :: "vector3 \<Rightarrow> vector3 \<Rightarrow> real \<Rightarrow> vector3" where
  "lerp this v alpha =
     \<lparr>vx = vx this + (vx v - vx this) * alpha,
      vy = vy this + (vy v - vy this) * alpha,
      vz = vz this + (vz v - vz this) * alpha\<rparr>"

text \<open>
  A scene node as the controller reads it: its \<open>parent\<close> reference and its
  \<open>userData\<close>, of which only the truth of \<open>isInteractable\<close> is read.
\<close>

record user_data =
  isInteractable :: bool

record object3d =
  parent :: "node option"
  userData :: "user_data option"

type_synonym scene_graph = "node \<Rightarrow> object3d"

text \<open>One entry of the list \<open>Raycaster.intersectObjects\<close> returns, nearest first.\<close>

record intersection =
  hit_object :: node
  hit_distance :: real

text \<open>
  The camera: its position and the point \<open>lookAt\<close> last oriented it toward.
\<close>

record camera =
  position :: vector3
  lookAt :: vector3

text \<open>The fields of the singleton \<open>sceneSetup\<close> that \<open>Input\<close> reads.\<close>

record sceneSetup =
  the_camera :: "camera option"
  interactableObjects :: "node list"

text \<open>
  A DOM mouse or wheel event. \<open>target_tagName\<close> is \<open>event.target.tagName\<close>
  (\<open>undefined\<close> when the target is not an element); \<open>defaultPrevented\<close> is set
  by \<open>preventDefault()\<close>.
\<close>

record event =
  target_tagName :: "string option"
  button :: int
  clientX :: real
  clientY :: real
  deltaY :: real
  defaultPrevented :: bool

record window =
  innerWidth :: real
  innerHeight :: real

text \<open>
  What lies outside the class: the singleton \<open>sceneSetup\<close>, the scene graph, the
  browser window, and the ray query of three.js, which maps the pointer in
  normalised device coordinates, the camera and the registered nodes to the hit list.
\<close>

record world =
  scene_setup :: sceneSetup
  graph :: scene_graph
  win :: window
  intersectObjects :: "point2 \<Rightarrow> camera \<Rightarrow> node list \<Rightarrow> intersection list"

text \<open>
  The fields of \<open>Input\<close>. \<open>raycaster\<close> holds the arguments of the last
  \<open>setFromCamera\<close>; \<open>onObjectClicked\<close> says whether a callback is registered
  (the field is \<open>null\<close> or a function).
\<close>

record input =
  raycaster :: "(point2 \<times> camera) option"
  mouse :: point2
  enabled :: bool
  locked :: bool
  lastTime :: real
  targetRadius :: real
  currentRadius :: real
  minRadius :: real
  maxRadius :: real
  targetAngle :: real
  currentAngle :: real
  targetHeight :: real
  currentHeight :: real
  minHeight :: real
  maxHeight :: real
  dampingFactor :: real
  rotateSpeed :: real
  zoomSpeed :: real
  panSpeed :: real
  targetLook :: vector3
  currentLook :: vector3
  isDragging :: bool
  previousMousePosition :: point2
  dragStartPosition :: point2
  onObjectClicked :: bool

text \<open>The constructor; \<open>now\<close> is the value of \<open>performance.now()\<close>.\<close>

definition Input_new :: "real \<Rightarrow> input" where
  "Input_new now =
     \<lparr>raycaster = None,
      mouse = \<lparr>px = 0, py = 0\<rparr>,
      enabled = True,
      locked = False,
      lastTime = now,
      targetRadius = 400,
      currentRadius = 400,
      minRadius = 150,
      maxRadius = 600,
      targetAngle = 78 / 100,
      currentAngle = 78 / 100,
      targetHeight = 220,
      currentHeight = 220,
      minHeight = 50,
      maxHeight = 500,
      dampingFactor = 5,
      rotateSpeed = 4 / 1000,
      zoomSpeed = 1 / 2,
      panSpeed = 1 / 2,
      targetLook = \<lparr>vx = 0, vy = 10, vz = 0\<rparr>,
      currentLook = \<lparr>vx = 0, vy = 10, vz = 0\<rparr>,
      isDragging = False,
      previousMousePosition = \<lparr>px = 0, py = 0\<rparr>,
      dragStartPosition = \<lparr>px = 0, py = 0\<rparr>,
      onObjectClicked = False\<rparr>"

subsection \<open>Gates and look target\<close>

definition setEnabled :: "input \<Rightarrow> bool \<Rightarrow> input" where
  "setEnabled s isEnabled =
     (let s1 = s\<lparr>enabled := isEnabled\<rparr>
      in if \<not> isEnabled then s1\<lparr>isDragging := False\<rparr> else s1)"

definition setLocked :: "input \<Rightarrow> bool \<Rightarrow> input" where
  "setLocked s isLocked = s\<lparr>locked := isLocked, isDragging := False\<rparr>"

text \<open>\<open>setLookTarget\<close> also writes a line to the console, which is not modelled.\<close>

definition setLookTarget :: "input \<Rightarrow> vector3 \<Rightarrow> input" where
  "setLookTarget s vec3 = s\<lparr>targetLook := vec3\<rparr>"

definition moveCameraTo :: "input \<Rightarrow> vector3 option \<Rightarrow> input" where
  "moveCameraTo s vec3 =
     (case vec3 of None \<Rightarrow> s | Some v \<Rightarrow> setLookTarget s v)"

definition isEventOnCanvas :: "event \<Rightarrow> bool" where
  "isEventOnCanvas e \<longleftrightarrow> target_tagName e = Some ''CANVAS''"

subsection \<open>Pointer handlers\<close>

definition onMouseDown :: "input \<Rightarrow> event \<Rightarrow> input" where
  "onMouseDown s e =
     (if \<not> enabled s \<or> locked s then s
      else if \<not> isEventOnCanvas e then s
      else if button e \<noteq> 0 \<and> button e \<noteq> 2 then s
      else s\<lparr>isDragging := True,
             previousMousePosition := \<lparr>px = clientX e, py = clientY e\<rparr>,
             dragStartPosition := \<lparr>px = clientX e, py = clientY e\<rparr>\<rparr>)"

text \<open>
  \<open>onMouseMove\<close> first stores the pointer in normalised device coordinates. A window
  on display has positive width and height; for a width or height of 0 JavaScript
  stores an infinity or NaN, where the quotient of the model is 0.
\<close>

definition onMouseMove :: "window \<Rightarrow> input \<Rightarrow> event \<Rightarrow> input" where
  "onMouseMove w s e =
     (let s1 = s\<lparr>mouse := \<lparr>px = (clientX e / innerWidth w) * 2 - 1,
                            py = - (clientY e / innerHeight w) * 2 + 1\<rparr>\<rparr>
      in if \<not> enabled s1 \<or> \<not> isDragging s1 \<or> locked s1 then s1
         else
           let deltaMove = \<lparr>px = clientX e - px (previousMousePosition s1),
                            py = clientY e - py (previousMousePosition s1)\<rparr>;
               s2 = s1\<lparr>targetAngle := targetAngle s1 + px deltaMove * rotateSpeed s1\<rparr>;
               s3 = s2\<lparr>targetHeight := targetHeight s2 + py deltaMove * panSpeed s2\<rparr>;
               s4 = s3\<lparr>targetHeight :=
                          max (minHeight s3) (min (maxHeight s3) (targetHeight s3))\<rparr>
           in s4\<lparr>previousMousePosition := \<lparr>px = clientX e, py = clientY e\<rparr>\<rparr>)"

text \<open>
  \<open>onWheel\<close> returns the controller and the event, whose \<open>defaultPrevented\<close>
  records the call of \<open>preventDefault()\<close> (the listener is registered with
  \<open>passive: false\<close>).
\<close>

definition onWheel :: "input \<Rightarrow> event \<Rightarrow> input \<times> event" where
  "onWheel s e =
     (if \<not> enabled s \<or> locked s then (s, e)
      else if \<not> isEventOnCanvas e then (s, e)
      else
        let e1 = e\<lparr>defaultPrevented := True\<rparr>;
            s1 = s\<lparr>targetRadius := targetRadius s + deltaY e * zoomSpeed s\<rparr>;
            s2 = s1\<lparr>targetRadius :=
                       max (minRadius s1) (min (maxRadius s1) (targetRadius s1))\<rparr>
        in (s2, e1))"

subsection \<open>Click resolution\<close>

definition flagged :: "scene_graph \<Rightarrow> node \<Rightarrow> bool" where
  "flagged g n \<longleftrightarrow>
     (case userData (g n) of None \<Rightarrow> False | Some u \<Rightarrow> isInteractable u)"

text \<open>
  The loop \<open>while (obj && depth < 5)\<close> of \<open>processClick\<close>; the result is
  \<open>foundInteractable\<close>.
\<close>

function walk_up :: "scene_graph \<Rightarrow> node option \<Rightarrow> nat \<Rightarrow> node option" where
  "walk_up g obj depth =
     (case obj of
        None \<Rightarrow> None
      | Some n \<Rightarrow>
          if depth < 5 then
            (if flagged g n then Some n
             else walk_up g (parent (g n)) (depth + 1))
          else None)"
  by pat_completeness auto
termination
  by (relation "measure (\<lambda>(g, obj, depth). 5 - depth)") auto

text \<open>
  \<open>processClick\<close> returns the controller and the node the callback
  \<open>onObjectClicked\<close> was invoked with, if it was invoked.
\<close>

definition processClick :: "world \<Rightarrow> input \<Rightarrow> input \<times> node option" where
  "processClick w s =
     (case the_camera (scene_setup w) of
        None \<Rightarrow> (s, None)
      | Some cam \<Rightarrow>
          let s1 = s\<lparr>raycaster := Some (mouse s, cam)\<rparr>;
              interactables = interactableObjects (scene_setup w);
              intersects = intersectObjects w (mouse s) cam interactables
          in (case intersects of
                [] \<Rightarrow> (s1, None)
              | hit # _ \<Rightarrow>
                  (case walk_up (graph w) (Some (hit_object hit)) 0 of
                     None \<Rightarrow> (s1, None)
                   | Some foundInteractable \<Rightarrow>
                       if onObjectClicked s1 then (s1, Some foundInteractable)
                       else (s1, None))))"

definition onMouseUp :: "world \<Rightarrow> input \<Rightarrow> event \<Rightarrow> input \<times> node option" where
  "onMouseUp w s e =
     (if \<not> enabled s then (s, None)
      else if locked s then (s\<lparr>isDragging := False\<rparr>, None)
      else
        let wasOnCanvas = isEventOnCanvas e;
            s1 = s\<lparr>isDragging := False\<rparr>
        in if \<not> wasOnCanvas then (s1, None)
           else
             let dist = sqrt ((clientX e - px (dragStartPosition s1))\<^sup>2 +
                              (clientY e - py (dragStartPosition s1))\<^sup>2)
             in if dist < 5 then processClick w s1 else (s1, None))"

subsection \<open>The per-frame update\<close>

text \<open>
  The two normalising loops on \<open>angleDiff\<close>. Over the reals each loop ends, which
  the termination proofs show. The source runs them on IEEE doubles: above \<open>2\<^sup>5\<^sup>6\<close>
  (about \<open>7.2e16\<close>) neighbouring doubles lie 16 or more apart, so
  \<open>angleDiff - Math.PI * 2\<close> rounds back to \<open>angleDiff\<close> and the first loop never
  ends; the second loop stalls in the same way below \<open>-2\<^sup>5\<^sup>6\<close>. What is proved of
  the normalised difference is therefore stated for differences of bounded size only
  (\<open>angle_in_reach\<close> below).
\<close>

function sub_turns :: "real \<Rightarrow> real" where
  "sub_turns angleDiff =
     (if angleDiff > pi then sub_turns (angleDiff - pi * 2) else angleDiff)"
  by pat_completeness auto
termination
proof (relation "measure (\<lambda>d. nat \<lceil>d / (pi * 2)\<rceil>)")
  show "wf (measure (\<lambda>d. nat \<lceil>d / (pi * 2)\<rceil>))" by simp
next
  fix angleDiff :: real
  assume gt: "pi < angleDiff"
  have "(angleDiff - pi * 2) / (pi * 2) = angleDiff / (pi * 2) - 1"
    by (simp add: diff_divide_distrib)
  then have eq: "\<lceil>(angleDiff - pi * 2) / (pi * 2)\<rceil> = \<lceil>angleDiff / (pi * 2)\<rceil> - 1"
    by simp
  have "0 < angleDiff" using gt pi_gt_zero by linarith
  then have "0 < angleDiff / (pi * 2)" by (simp add: zero_less_divide_iff)
  then have "0 < \<lceil>angleDiff / (pi * 2)\<rceil>" by simp
  with eq show "(angleDiff - pi * 2, angleDiff) \<in> measure (\<lambda>d. nat \<lceil>d / (pi * 2)\<rceil>)"
    by simp
qed

function add_turns :: "real \<Rightarrow> real" where
  "add_turns angleDiff =
     (if angleDiff < - pi then add_turns (angleDiff + pi * 2) else angleDiff)"
  by pat_completeness auto
termination
proof (relation "measure (\<lambda>d. nat \<lceil>- d / (pi * 2)\<rceil>)")
  show "wf (measure (\<lambda>d. nat \<lceil>- d / (pi * 2)\<rceil>))" by simp
next
  fix angleDiff :: real
  assume lt: "angleDiff < - pi"
  have "- (angleDiff + pi * 2) / (pi * 2) = - angleDiff / (pi * 2) - 1"
    by (simp add: diff_divide_distrib)
  then have eq: "\<lceil>- (angleDiff + pi * 2) / (pi * 2)\<rceil> = \<lceil>- angleDiff / (pi * 2)\<rceil> - 1"
    by simp
  have "0 < - angleDiff" using lt pi_gt_zero by linarith
  then have "0 < (- angleDiff) / (pi * 2)" by (simp only: zero_less_divide_iff) simp
  then have pos: "0 < \<lceil>- angleDiff / (pi * 2)\<rceil>" by (simp only: zero_less_ceiling)
  have "nat \<lceil>- (angleDiff + pi * 2) / (pi * 2)\<rceil> < nat \<lceil>- angleDiff / (pi * 2)\<rceil>"
    using eq pos by linarith
  then show "(angleDiff + pi * 2, angleDiff) \<in> measure (\<lambda>d. nat \<lceil>- d / (pi * 2)\<rceil>)"
    by (simp only: in_measure)
qed

text \<open>The locals \<open>dt\<close>, \<open>lerpFactor\<close> and \<open>angleDiff\<close> of \<open>update\<close>.\<close>

definition update_dt :: "real \<Rightarrow> input \<Rightarrow> real" where
  "update_dt now s = min ((now - lastTime s) / 1000) (1 / 10)"

definition update_lerpFactor :: "real \<Rightarrow> input \<Rightarrow> real" where
  "update_lerpFactor now s = dampingFactor s * update_dt now s"

definition update_angleDiff :: "input \<Rightarrow> real" where
  "update_angleDiff s = add_turns (sub_turns (targetAngle s - currentAngle s))"

text \<open>
  \<open>update\<close> returns the controller and \<open>sceneSetup\<close>, whose camera it moves;
  \<open>now\<close> is the value of \<open>performance.now()\<close>.
\<close>

definition update :: "sceneSetup \<Rightarrow> real \<Rightarrow> input \<Rightarrow> input \<times> sceneSetup" where
  "update ss now s =
     (case the_camera ss of
        None \<Rightarrow> (s, ss)
      | Some cam \<Rightarrow>
          let lerpFactor = update_lerpFactor now s;
              angleDiff = update_angleDiff s;
              s1 = s\<lparr>lastTime := now\<rparr>;
              s2 = s1\<lparr>currentAngle := currentAngle s1 + angleDiff * lerpFactor\<rparr>;
              s3 = s2\<lparr>currentHeight :=
                         currentHeight s2 + (targetHeight s2 - currentHeight s2) * lerpFactor\<rparr>;
              s4 = s3\<lparr>currentRadius :=
                         currentRadius s3 + (targetRadius s3 - currentRadius s3) * lerpFactor\<rparr>;
              s5 = s4\<lparr>currentLook := lerp (currentLook s4) (targetLook s4) lerpFactor\<rparr>;
              x = currentRadius s5 * sin (currentAngle s5);
              z = currentRadius s5 * cos (currentAngle s5);
              cam1 = cam\<lparr>position := \<lparr>vx = x, vy = currentHeight s5, vz = z\<rparr>\<rparr>;
              cam2 = cam1\<lparr>lookAt := currentLook s5\<rparr>
          in (s5, ss\<lparr>the_camera := Some cam2\<rparr>))"

subsection \<open>Operations and runs\<close>

text \<open>
  Every method of the class that writes controller state, as one operation; a run
  applies operations in order, each in the world it happens in.
\<close>

datatype operation =
    SetEnabled bool
  | SetLocked bool
  | SetLookTarget vector3
  | MoveCameraTo "vector3 option"
  | MouseDown event
  | MouseMove event
  | MouseUp event
  | Wheel event
  | ProcessClick
  | Update real

fun apply_operation :: "world \<Rightarrow> input \<Rightarrow> operation \<Rightarrow> input" where
  "apply_operation w s (SetEnabled b) = setEnabled s b"
| "apply_operation w s (SetLocked b) = setLocked s b"
| "apply_operation w s (SetLookTarget v) = setLookTarget s v"
| "apply_operation w s (MoveCameraTo v) = moveCameraTo s v"
| "apply_operation w s (MouseDown e) = onMouseDown s e"
| "apply_operation w s (MouseMove e) = onMouseMove (win w) s e"
| "apply_operation w s (MouseUp e) = fst (onMouseUp w s e)"
| "apply_operation w s (Wheel e) = fst (onWheel s e)"
| "apply_operation w s ProcessClick = fst (processClick w s)"
| "apply_operation w s (Update now) = fst (update (scene_setup w) now s)"

fun run :: "input \<Rightarrow> (world \<times> operation) list \<Rightarrow> input" where
  "run s [] = s"
| "run s ((w, op) # rest) = run (apply_operation w s op) rest"

text \<open>A sequence of pointer moves, as the browser delivers them between two events.\<close>

fun moves :: "window \<Rightarrow> input \<Rightarrow> event list \<Rightarrow> input" where
  "moves wd s [] = s"
| "moves wd s (e # es) = moves wd (onMouseMove wd s e) es"

subsection \<open>Notions the properties are stated with\<close>

text \<open>The node \<open>k\<close> parent links above \<open>n\<close>, if the chain is that long.\<close>

fun ancestor :: "scene_graph \<Rightarrow> node \<Rightarrow> nat \<Rightarrow> node option" where
  "ancestor g n 0 = Some n"
| "ancestor g n (Suc k) =
     (case parent (g n) of None \<Rightarrow> None | Some p \<Rightarrow> ancestor g p k)"

text \<open>
  No node fewer than \<open>k\<close> parent links above \<open>n\<close> is flagged interactable (\<open>n\<close>
  itself is 0 links above).
\<close>

fun unflagged_below :: "scene_graph \<Rightarrow> node \<Rightarrow> nat \<Rightarrow> bool" where
  "unflagged_below g n 0 = True"
| "unflagged_below g n (Suc k) =
     (\<not> flagged g n \<and>
      (case parent (g n) of None \<Rightarrow> True | Some p \<Rightarrow> unflagged_below g p k))"

text \<open>The targets of radius and height lie in the configured ranges.\<close>

definition targets_in_range :: "input \<Rightarrow> bool" where
  "targets_in_range s \<longleftrightarrow>
     minHeight s \<le> targetHeight s \<and> targetHeight s \<le> maxHeight s \<and>
     minRadius s \<le> targetRadius s \<and> targetRadius s \<le> maxRadius s"


text \<open>\<open>clamp(x, lo, hi)\<close> as the specification writes it.\<close>

definition clamp :: "real \<Rightarrow> real \<Rightarrow> real \<Rightarrow> real" where
  "clamp x lo hi = max lo (min hi x)"

text \<open>Euclidean distance of two pointer positions.\<close>

definition distance :: "real \<Rightarrow> real \<Rightarrow> point2 \<Rightarrow> real" where
  "distance x y p = sqrt ((x - px p)\<^sup>2 + (y - py p)\<^sup>2)"

subsection \<open>Example scenes and events\<close>

text \<open>
  A chain of nodes \<open>0 \<rightarrow> 1 \<rightarrow> \<dots> \<rightarrow> 7\<close> (each the child of the next) in which exactly
  node \<open>k\<close> is flagged interactable.
\<close>

definition chain_graph :: "node \<Rightarrow> scene_graph" where
  "chain_graph k n =
     \<lparr>parent = (if n < 7 then Some (n + 1) else None),
      userData = Some \<lparr>isInteractable = (n = k)\<rparr>\<rparr>"

definition demo_camera :: camera where
  "demo_camera = \<lparr>position = \<lparr>vx = 280, vy = 180, vz = 280\<rparr>,
                  lookAt = \<lparr>vx = 0, vy = 10, vz = 0\<rparr>\<rparr>"

text \<open>A world whose ray query always hits node \<open>0\<close> first; node \<open>k\<close> is registered.\<close>

definition demo_world :: "node \<Rightarrow> world" where
  "demo_world k =
     \<lparr>scene_setup = \<lparr>the_camera = Some demo_camera, interactableObjects = [k]\<rparr>,
      graph = chain_graph k,
      win = \<lparr>innerWidth = 1920, innerHeight = 1080\<rparr>,
      intersectObjects = (\<lambda>m c ns. [\<lparr>hit_object = 0, hit_distance = 10\<rparr>])\<rparr>"

text \<open>The same world before the scene is initialised: no camera yet.\<close>

definition early_world :: world where
  "early_world = (demo_world 3)\<lparr>scene_setup := \<lparr>the_camera = None, interactableObjects = []\<rparr>\<rparr>"

text \<open>A fresh controller with a click callback registered.\<close>

definition demo_input :: input where
  "demo_input = (Input_new 0)\<lparr>onObjectClicked := True\<rparr>"


definition canvas_event :: "int \<Rightarrow> real \<Rightarrow> real \<Rightarrow> real \<Rightarrow> event" where
  "canvas_event b x y d =
     \<lparr>target_tagName = Some ''CANVAS'', button = b, clientX = x, clientY = y,
      deltaY = d, defaultPrevented = False\<rparr>"

section \<open>Properties\<close>

text \<open>
  The loops are unfolded by hand, one iteration at a time, so their defining equations
  leave the simplifier's default rules.
\<close>

declare walk_up.simps [simp del] sub_turns.simps [simp del] add_turns.simps [simp del]

subsection \<open>Gates\<close>

text \<open>
  C9. \<open>setEnabled(false)\<close> is idempotent: on every controller state, calling it twice
  gives exactly the state one call gives, and one call leaves input disabled and no
  drag in progress.
\<close>

theorem setEnabled_false_idempotent:
  "setEnabled (setEnabled s False) False = setEnabled s False
   \<and> enabled (setEnabled s False) = False
   \<and> isDragging (setEnabled s False) = False"
  by (simp add: setEnabled_def)

text \<open>
  C10. Every call of \<open>setLocked\<close> ends a drag in progress, whatever its argument:
  after \<open>setLocked(false)\<close> as after \<open>setLocked(true)\<close>, \<open>isDragging\<close> is false, and
  \<open>locked\<close> holds the argument.
\<close>

theorem setLocked_always_ends_drag:
  "isDragging (setLocked s isLocked) = False
   \<and> locked (setLocked s isLocked) = isLocked
   \<and> isDragging (setLocked (s\<lparr>isDragging := True\<rparr>) False) = False"
  by (simp add: setLocked_def)

subsection \<open>Pointer moves while locked\<close>

lemma onMouseMove_locked:
  "locked s \<Longrightarrow> \<exists>m. onMouseMove wd s e = s\<lparr>mouse := m\<rparr>"
  by (auto simp: onMouseMove_def Let_def)

lemma moves_locked:
  "locked s \<Longrightarrow> \<exists>m. moves wd s es = s\<lparr>mouse := m\<rparr>"
proof (induction es arbitrary: s)
  case Nil
  have "s = s\<lparr>mouse := mouse s\<rparr>" by simp
  then show ?case by (metis moves.simps(1))
next
  case (Cons e es)
  from onMouseMove_locked [OF Cons.prems]
  obtain m where m: "onMouseMove wd s e = s\<lparr>mouse := m\<rparr>"
    by blast
  have "locked (s\<lparr>mouse := m\<rparr>)" using Cons.prems by simp
  from Cons.IH [OF this]
  obtain m' where "moves wd (s\<lparr>mouse := m\<rparr>) es = s\<lparr>mouse := m, mouse := m'\<rparr>"
    by blast
  then show ?case using m by auto
qed

text \<open>
  C7. Locking while a drag is in progress cancels the drag. Start from any state with
  \<open>isDragging\<close> true, call \<open>setLocked(true)\<close>, let any pointer moves follow: the
  pointer-up that comes next returns the state as it found it, with \<open>isDragging\<close>
  false, invokes no callback, and the targets of angle, radius, height and look-at are
  those from before the lock.
\<close>

theorem lock_mid_drag_cancels:
  fixes s :: input and w :: world and es :: "event list"
  defines "s1 \<equiv> moves (win w) (setLocked (s\<lparr>isDragging := True\<rparr>) True) es"
  shows "onMouseUp w s1 e = (s1, None)
     \<and> isDragging (fst (onMouseUp w s1 e)) = False
     \<and> targetAngle (fst (onMouseUp w s1 e)) = targetAngle s
     \<and> targetRadius (fst (onMouseUp w s1 e)) = targetRadius s
     \<and> targetHeight (fst (onMouseUp w s1 e)) = targetHeight s
     \<and> targetLook (fst (onMouseUp w s1 e)) = targetLook s"
proof -
  let ?l = "setLocked (s\<lparr>isDragging := True\<rparr>) True"
  have "locked ?l" by (simp add: setLocked_def)
  from moves_locked [OF this] obtain m where m: "s1 = ?l\<lparr>mouse := m\<rparr>"
    unfolding s1_def by blast
  have up: "onMouseUp w s1 e = (s1, None)"
    by (simp add: m onMouseUp_def setLocked_def)
  show ?thesis unfolding up by (simp add: m setLocked_def)
qed

theorem lock_mid_drag_cancels_witness:
  "onMouseUp (demo_world 0)
     (moves (win (demo_world 0)) (setLocked (demo_input\<lparr>isDragging := True\<rparr>) True)
        [canvas_event 0 140 100 0])
     (canvas_event 0 140 100 0)
   = (moves (win (demo_world 0)) (setLocked (demo_input\<lparr>isDragging := True\<rparr>) True)
        [canvas_event 0 140 100 0], None)"
  using lock_mid_drag_cancels [of "demo_world 0" demo_input "[canvas_event 0 140 100 0]"
      "canvas_event 0 140 100 0"]
  by simp

subsection \<open>Before the scene is initialised\<close>

text \<open>
  C8. With no camera yet (\<open>sceneSetup.camera\<close> is \<open>null\<close>), \<open>update\<close> and
  \<open>processClick\<close> do nothing: each returns the controller state it was given, whatever
  that state is, \<open>update\<close> leaves \<open>sceneSetup\<close> as it is, and \<open>processClick\<close> invokes
  no callback.
\<close>

theorem null_camera_is_noop:
  assumes "the_camera (scene_setup w) = None"
  shows "update (scene_setup w) now s = (s, scene_setup w)
     \<and> processClick w s = (s, None)"
  using assms by (simp add: update_def processClick_def)

theorem null_camera_is_noop_witness:
  "the_camera (scene_setup early_world) = None
   \<and> update (scene_setup early_world) 16 demo_input = (demo_input, scene_setup early_world)
   \<and> processClick early_world demo_input = (demo_input, None)"
proof -
  have h: "the_camera (scene_setup early_world) = None"
    by (simp add: early_world_def)
  show ?thesis using h null_camera_is_noop [OF h, of 16 demo_input] by simp
qed

subsection \<open>The wheel\<close>

text \<open>
  C3, as the code has it. For a wheel event on the canvas, \<open>onWheel\<close> calls
  \<open>preventDefault()\<close> exactly when the gates allow input (\<open>enabled\<close> and not
  \<open>locked\<close>), and then sets the radius target to its old value plus
  \<open>deltaY * zoomSpeed\<close>, clamped to \<open>[minRadius, maxRadius]\<close>. When input is disabled
  or locked the handler returns at once: state and event stay as they were.
\<close>

theorem onWheel_gated:
  assumes "isEventOnCanvas e"
  shows "onWheel s e =
     (if enabled s \<and> \<not> locked s
      then (s\<lparr>targetRadius :=
                clamp (targetRadius s + deltaY e * zoomSpeed s) (minRadius s) (maxRadius s)\<rparr>,
            e\<lparr>defaultPrevented := True\<rparr>)
      else (s, e))"
  using assms by (simp add: onWheel_def clamp_def Let_def)

theorem onWheel_gated_witness:
  "isEventOnCanvas (canvas_event 0 100 100 100)
   \<and> onWheel demo_input (canvas_event 0 100 100 100) =
       (demo_input\<lparr>targetRadius := 450\<rparr>,
        (canvas_event 0 100 100 100)\<lparr>defaultPrevented := True\<rparr>)
   \<and> onWheel (setLocked demo_input True) (canvas_event 0 100 100 100) =
       (setLocked demo_input True, canvas_event 0 100 100 100)"
proof -
  have h: "isEventOnCanvas (canvas_event 0 100 100 100)"
    by (simp add: isEventOnCanvas_def canvas_event_def)
  have d: "deltaY (canvas_event 0 100 100 100) = 100" by (simp add: canvas_event_def)
  show ?thesis
    using h onWheel_gated [OF h, of demo_input] onWheel_gated [OF h, of "setLocked demo_input True"]
    by (simp add: d demo_input_def Input_new_def setLocked_def clamp_def)
qed

text \<open>
  The claim as stated fails: a wheel event on the canvas keeps its default behaviour
  when input is disabled, and when it is locked.
\<close>

theorem onWheel_gates_keep_default:
  "isEventOnCanvas (canvas_event 0 100 100 100)
   \<and> \<not> defaultPrevented (snd (onWheel (setEnabled demo_input False) (canvas_event 0 100 100 100)))
   \<and> \<not> defaultPrevented (snd (onWheel (setLocked demo_input True) (canvas_event 0 100 100 100)))"
  by (simp add: isEventOnCanvas_def canvas_event_def onWheel_def setEnabled_def setLocked_def
      demo_input_def Input_new_def)

subsection \<open>Targets stay in range\<close>

lemma inv_setEnabled: "targets_in_range s \<Longrightarrow> targets_in_range (setEnabled s b)"
  by (simp add: targets_in_range_def setEnabled_def Let_def)

lemma inv_setLocked: "targets_in_range s \<Longrightarrow> targets_in_range (setLocked s b)"
  by (simp add: targets_in_range_def setLocked_def)

lemma inv_setLookTarget: "targets_in_range s \<Longrightarrow> targets_in_range (setLookTarget s v)"
  by (simp add: targets_in_range_def setLookTarget_def)

lemma inv_moveCameraTo: "targets_in_range s \<Longrightarrow> targets_in_range (moveCameraTo s v)"
  by (simp add: moveCameraTo_def inv_setLookTarget split: option.splits)

lemma inv_onMouseDown: "targets_in_range s \<Longrightarrow> targets_in_range (onMouseDown s e)"
  by (simp add: targets_in_range_def onMouseDown_def)

lemma inv_onMouseMove: "targets_in_range s \<Longrightarrow> targets_in_range (onMouseMove wd s e)"
  by (auto simp: targets_in_range_def onMouseMove_def Let_def)

lemma inv_onWheel: "targets_in_range s \<Longrightarrow> targets_in_range (fst (onWheel s e))"
  by (auto simp: targets_in_range_def onWheel_def Let_def)

lemma inv_processClick: "targets_in_range s \<Longrightarrow> targets_in_range (fst (processClick w s))"
  by (auto simp: targets_in_range_def processClick_def Let_def split: option.splits list.splits)

lemma inv_onMouseUp: "targets_in_range s \<Longrightarrow> targets_in_range (fst (onMouseUp w s e))"
proof -
  assume a: "targets_in_range s"
  have b: "targets_in_range (s\<lparr>isDragging := False\<rparr>)"
    using a by (simp add: targets_in_range_def)
  show ?thesis
    using a b inv_processClick [OF b, of w] by (simp add: onMouseUp_def Let_def)
qed

lemma inv_update: "targets_in_range s \<Longrightarrow> targets_in_range (fst (update ss now s))"
  by (simp add: targets_in_range_def update_def Let_def split: option.splits)

lemma inv_apply_operation:
  "targets_in_range s \<Longrightarrow> targets_in_range (apply_operation w s op)"
  by (cases op)
    (simp_all add: inv_setEnabled inv_setLocked inv_setLookTarget inv_moveCameraTo
      inv_onMouseDown inv_onMouseMove inv_onMouseUp inv_onWheel inv_processClick inv_update)

lemma inv_run: "targets_in_range s \<Longrightarrow> targets_in_range (run s wops)"
  by (induction s wops rule: run.induct) (simp_all add: inv_apply_operation)

lemma inv_Input_new: "targets_in_range (Input_new t)"
  by (simp add: targets_in_range_def Input_new_def)

text \<open>
  C6. If the height target lies in \<open>[minHeight, maxHeight]\<close> and the radius target in
  \<open>[minRadius, maxRadius]\<close>, they still do after a pointer move and after a wheel
  event, whatever the event's coordinates and delta, after any single operation of the
  controller, and after any run of operations; the constructor's state satisfies the
  bound, so every state reached from it does.
\<close>

theorem targets_stay_in_range:
  assumes "targets_in_range s"
  shows "targets_in_range (onMouseMove wd s e)
     \<and> targets_in_range (fst (onWheel s e))
     \<and> targets_in_range (apply_operation w s op)
     \<and> targets_in_range (run s wops)
     \<and> targets_in_range (run (Input_new t) wops)"
  using assms inv_Input_new [of t]
  by (simp add: inv_onMouseMove inv_onWheel inv_apply_operation inv_run)

theorem targets_stay_in_range_witness:
  "targets_in_range demo_input
   \<and> targetHeight (onMouseMove (win (demo_world 3))
        (onMouseDown demo_input (canvas_event 0 100 100 0))
        (canvas_event 0 100 1000000100 0)) = 500
   \<and> targetRadius (fst (onWheel demo_input (canvas_event 0 100 100 (- 1000000000)))) = 150
   \<and> targets_in_range (onMouseMove (win (demo_world 3))
        (onMouseDown demo_input (canvas_event 0 100 100 0))
        (canvas_event 0 100 1000000100 0))
   \<and> targets_in_range (fst (onWheel demo_input (canvas_event 0 100 100 (- 1000000000))))
   \<and> targets_in_range (run demo_input
        [(demo_world 3, MouseDown (canvas_event 0 100 100 0)),
         (demo_world 3, MouseMove (canvas_event 0 100 1000000100 0)),
         (demo_world 3, Wheel (canvas_event 0 100 100 (- 1000000000)))])"
proof -
  have h: "targets_in_range demo_input"
    by (simp add: targets_in_range_def demo_input_def Input_new_def)
  have d: "targets_in_range (onMouseDown demo_input (canvas_event 0 100 100 0))"
    by (simp add: targets_in_range_def onMouseDown_def demo_input_def Input_new_def)
  have m: "targetHeight (onMouseMove (win (demo_world 3))
        (onMouseDown demo_input (canvas_event 0 100 100 0))
        (canvas_event 0 100 1000000100 0)) = 500"
    by (simp add: onMouseMove_def onMouseDown_def demo_input_def Input_new_def
        canvas_event_def isEventOnCanvas_def Let_def)
  have r: "targetRadius (fst (onWheel demo_input (canvas_event 0 100 100 (- 1000000000)))) = 150"
    by (simp add: onWheel_def demo_input_def Input_new_def canvas_event_def
        isEventOnCanvas_def Let_def)
  show ?thesis
    using h m r
      targets_stay_in_range [OF d, of "win (demo_world 3)" "canvas_event 0 100 1000000100 0"]
      targets_stay_in_range [OF h, of _ "canvas_event 0 100 100 (- 1000000000)" _ _
        "[(demo_world 3, MouseDown (canvas_event 0 100 100 0)),
         (demo_world 3, MouseMove (canvas_event 0 100 1000000100 0)),
         (demo_world 3, Wheel (canvas_event 0 100 100 (- 1000000000)))]"]
    by blast
qed

subsection \<open>Click or drag\<close>

lemma onMouseMove_keeps:
  "enabled (onMouseMove wd s e) = enabled s
   \<and> locked (onMouseMove wd s e) = locked s
   \<and> dragStartPosition (onMouseMove wd s e) = dragStartPosition s"
  by (simp add: onMouseMove_def Let_def)

lemma moves_keeps:
  "enabled (moves wd s es) = enabled s
   \<and> locked (moves wd s es) = locked s
   \<and> dragStartPosition (moves wd s es) = dragStartPosition s"
  by (induction es arbitrary: s) (simp_all add: onMouseMove_keeps)

lemma onMouseUp_classify:
  assumes "enabled s" "\<not> locked s" "isEventOnCanvas e"
  shows "onMouseUp w s e =
     (if distance (clientX e) (clientY e) (dragStartPosition s) < 5
      then processClick w (s\<lparr>isDragging := False\<rparr>)
      else (s\<lparr>isDragging := False\<rparr>, None))"
  using assms by (simp add: onMouseUp_def distance_def Let_def)

text \<open>
  C4. Take a pointer-down with the primary or secondary button on the canvas while
  input is enabled and not locked, any pointer moves after it, and a pointer-up on the
  canvas. The recorded down position is the position of the pointer-down. If the
  Euclidean distance from it to the up position is below 5, the pointer-up hands over to
  \<open>processClick\<close>; otherwise it only ends the drag and invokes no callback. So at
  distance 0 the click is resolved, and at distance 50 it is not.
\<close>

theorem click_or_drag:
  fixes s :: input and w :: world and es :: "event list" and down up :: event
  defines "s1 \<equiv> moves (win w) (onMouseDown s down) es"
  assumes gates: "enabled s" "\<not> locked s"
    and canvas: "isEventOnCanvas down" "isEventOnCanvas up"
    and btn: "button down = 0 \<or> button down = 2"
  shows "dragStartPosition s1 = \<lparr>px = clientX down, py = clientY down\<rparr>
    \<and> (if distance (clientX up) (clientY up) \<lparr>px = clientX down, py = clientY down\<rparr> < 5
        then onMouseUp w s1 up = processClick w (s1\<lparr>isDragging := False\<rparr>)
        else onMouseUp w s1 up = (s1\<lparr>isDragging := False\<rparr>, None))
    \<and> (distance (clientX up) (clientY up) \<lparr>px = clientX down, py = clientY down\<rparr> = 0
        \<longrightarrow> onMouseUp w s1 up = processClick w (s1\<lparr>isDragging := False\<rparr>))
    \<and> (distance (clientX up) (clientY up) \<lparr>px = clientX down, py = clientY down\<rparr> = 50
        \<longrightarrow> onMouseUp w s1 up = (s1\<lparr>isDragging := False\<rparr>, None))"
proof -
  have d: "dragStartPosition (onMouseDown s down) = \<lparr>px = clientX down, py = clientY down\<rparr>"
    "enabled (onMouseDown s down)" "\<not> locked (onMouseDown s down)"
    using gates canvas(1) btn by (auto simp: onMouseDown_def)
  have k: "dragStartPosition s1 = \<lparr>px = clientX down, py = clientY down\<rparr>"
    "enabled s1" "\<not> locked s1"
    unfolding s1_def using d by (simp_all add: moves_keeps)
  show ?thesis
    using k(1) onMouseUp_classify [OF k(2) k(3) canvas(2), of w] by simp
qed

lemma flagged_chain: "flagged (chain_graph f) n \<longleftrightarrow> n = f"
  by (simp add: flagged_def chain_graph_def)

lemma walk_up_None: "walk_up g None d = None"
  by (simp add: walk_up.simps)

lemma walk_up_Some:
  "walk_up g (Some n) d =
     (if d < 5 then (if flagged g n then Some n else walk_up g (parent (g n)) (Suc d)) else None)"
  by (simp add: walk_up.simps [of g "Some n" d])

lemma walk_up_chain_3: "walk_up (chain_graph 3) (Some 0) 0 = Some 3"
  by (simp add: walk_up_Some walk_up_None flagged_chain chain_graph_def)

lemma walk_up_chain_4: "walk_up (chain_graph 4) (Some 0) 0 = Some 4"
  by (simp add: walk_up_Some walk_up_None flagged_chain chain_graph_def)

lemma walk_up_chain_5: "walk_up (chain_graph 5) (Some 0) 0 = None"
  by (simp add: walk_up_Some walk_up_None flagged_chain chain_graph_def)

lemma processClick_demo:
  "processClick (demo_world f) s =
     (s\<lparr>raycaster := Some (mouse s, demo_camera)\<rparr>,
      case walk_up (chain_graph f) (Some 0) 0 of None \<Rightarrow> None
      | Some n \<Rightarrow> if onObjectClicked s then Some n else None)"
  by (simp add: processClick_def demo_world_def Let_def split: option.splits)

lemma distance_same: "distance 100 100 \<lparr>px = 100, py = 100\<rparr> = 0"
  by (simp add: distance_def)

lemma distance_far: "distance 150 100 \<lparr>px = 100, py = 100\<rparr> = 50"
proof -
  have "sqrt ((50::real)\<^sup>2) = 50" by simp
  then show ?thesis by (simp add: distance_def)
qed

theorem click_or_drag_witness:
  "snd (onMouseUp (demo_world 3)
          (moves (win (demo_world 3)) (onMouseDown demo_input (canvas_event 0 100 100 0)) [])
          (canvas_event 0 100 100 0)) = Some 3
   \<and> snd (onMouseUp (demo_world 3)
          (moves (win (demo_world 3)) (onMouseDown demo_input (canvas_event 0 100 100 0))
             [canvas_event 0 150 100 0])
          (canvas_event 0 150 100 0)) = None"
proof -
  have g: "enabled demo_input" "\<not> locked demo_input"
    by (simp_all add: demo_input_def Input_new_def)
  have c: "isEventOnCanvas (canvas_event 0 100 100 0)" "isEventOnCanvas (canvas_event 0 150 100 0)"
    by (simp_all add: isEventOnCanvas_def canvas_event_def)
  have b: "button (canvas_event 0 100 100 0) = 0 \<or> button (canvas_event 0 100 100 0) = 2"
    by (simp add: canvas_event_def)
  have xy: "clientX (canvas_event 0 100 100 0) = 100" "clientY (canvas_event 0 100 100 0) = 100"
    "clientX (canvas_event 0 150 100 0) = 150" "clientY (canvas_event 0 150 100 0) = 100"
    by (simp_all add: canvas_event_def)
  from click_or_drag [OF g c(1) c(1) b, of "demo_world 3" "[]"]
  have 1: "snd (onMouseUp (demo_world 3)
          (moves (win (demo_world 3)) (onMouseDown demo_input (canvas_event 0 100 100 0)) [])
          (canvas_event 0 100 100 0)) = Some 3"
    by (simp add: xy distance_same processClick_demo walk_up_chain_3 onMouseDown_def
        demo_input_def Input_new_def)
  from click_or_drag [OF g c(1) c(2) b, of "demo_world 3" "[canvas_event 0 150 100 0]"]
  have 2: "snd (onMouseUp (demo_world 3)
          (moves (win (demo_world 3)) (onMouseDown demo_input (canvas_event 0 100 100 0))
             [canvas_event 0 150 100 0])
          (canvas_event 0 150 100 0)) = None"
    by (simp add: xy distance_far)
  from 1 2 show ?thesis by simp
qed

subsection \<open>Resolving a click\<close>

lemma unflagged_below_0: "unflagged_below g n 0"
  by simp

lemma unflagged_below_Suc:
  "unflagged_below g n (Suc k) \<longleftrightarrow>
     \<not> flagged g n \<and> (case parent (g n) of None \<Rightarrow> True | Some p \<Rightarrow> unflagged_below g p k)"
  by simp

text \<open>\<open>unflagged_below\<close> in terms of \<open>ancestor\<close>.\<close>

lemma unflagged_below_iff:
  "unflagged_below g n k \<longleftrightarrow>
     (\<forall>j<k. case ancestor g n j of None \<Rightarrow> True | Some m \<Rightarrow> \<not> flagged g m)"
  by (induction k arbitrary: n) (simp_all add: All_less_Suc2 split: option.splits)

text \<open>
  What the loop returns: started at node \<open>n\<close> with \<open>depth = d\<close>, it finds \<open>a\<close> exactly
  when \<open>a\<close> is the first flagged node of the chain and lies \<open>k\<close> links up with
  \<open>d + k < 5\<close>.
\<close>

lemma walk_up_iff:
  "walk_up g (Some n) d = Some a \<longleftrightarrow>
     (\<exists>k. d + k < 5 \<and> ancestor g n k = Some a \<and> flagged g a \<and> unflagged_below g n k)"
proof (induction "5 - d" arbitrary: n d)
  case 0
  then show ?case by (simp add: walk_up_Some)
next
  case (Suc m)
  then have d: "d < 5" and m: "m = 5 - Suc d" by simp_all
  show ?case
  proof (cases "flagged g n")
    case True
    have "(\<exists>k. d + k < 5 \<and> ancestor g n k = Some a \<and> flagged g a \<and> unflagged_below g n k)
          \<longleftrightarrow> a = n"
    proof
      assume "\<exists>k. d + k < 5 \<and> ancestor g n k = Some a \<and> flagged g a \<and> unflagged_below g n k"
      then obtain k where k: "ancestor g n k = Some a" "unflagged_below g n k" by blast
      show "a = n"
      proof (cases k)
        case 0
        with k show ?thesis by simp
      next
        case (Suc k')
        with k(2) True show ?thesis by (simp add: unflagged_below_Suc)
      qed
    next
      assume "a = n"
      then have "d + 0 < 5 \<and> ancestor g n 0 = Some a \<and> flagged g a \<and> unflagged_below g n 0"
        using d True by (simp add: unflagged_below_0)
      then show "\<exists>k. d + k < 5 \<and> ancestor g n k = Some a \<and> flagged g a \<and> unflagged_below g n k"
        by blast
    qed
    then show ?thesis using d True by (auto simp: walk_up_Some)
  next
    case False
    show ?thesis
    proof (cases "parent (g n)")
      case None
      have "\<not> (\<exists>k. d + k < 5 \<and> ancestor g n k = Some a \<and> flagged g a \<and> unflagged_below g n k)"
      proof
        assume "\<exists>k. d + k < 5 \<and> ancestor g n k = Some a \<and> flagged g a \<and> unflagged_below g n k"
        then obtain k where k: "ancestor g n k = Some a" "flagged g a" by blast
        show False using k False None by (cases k) simp_all
      qed
      then show ?thesis using d False None by (simp add: walk_up_Some walk_up_None)
    next
      case (Some p)
      have ih: "walk_up g (Some p) (Suc d) = Some a \<longleftrightarrow>
          (\<exists>k. Suc d + k < 5 \<and> ancestor g p k = Some a \<and> flagged g a \<and> unflagged_below g p k)"
        using Suc.hyps(1) [OF m] .
      have "(\<exists>k. d + k < 5 \<and> ancestor g n k = Some a \<and> flagged g a \<and> unflagged_below g n k) \<longleftrightarrow>
            (\<exists>k. Suc d + k < 5 \<and> ancestor g p k = Some a \<and> flagged g a \<and> unflagged_below g p k)"
      proof
        assume "\<exists>k. d + k < 5 \<and> ancestor g n k = Some a \<and> flagged g a \<and> unflagged_below g n k"
        then obtain k where k: "d + k < 5" "ancestor g n k = Some a" "flagged g a"
          "unflagged_below g n k"
          by blast
        show "\<exists>k. Suc d + k < 5 \<and> ancestor g p k = Some a \<and> flagged g a \<and> unflagged_below g p k"
        proof (cases k)
          case 0
          with k False show ?thesis by simp
        next
          case (Suc k')
          with k Some
          have "Suc d + k' < 5 \<and> ancestor g p k' = Some a \<and> flagged g a \<and> unflagged_below g p k'"
            by (simp add: unflagged_below_Suc)
          then show ?thesis by blast
        qed
      next
        assume "\<exists>k. Suc d + k < 5 \<and> ancestor g p k = Some a \<and> flagged g a \<and> unflagged_below g p k"
        then obtain k where k: "Suc d + k < 5" "ancestor g p k = Some a" "flagged g a"
          "unflagged_below g p k"
          by blast
        then have "d + Suc k < 5 \<and> ancestor g n (Suc k) = Some a \<and> flagged g a
            \<and> unflagged_below g n (Suc k)"
          using Some False by (simp add: unflagged_below_Suc)
        then show "\<exists>k. d + k < 5 \<and> ancestor g n k = Some a \<and> flagged g a \<and> unflagged_below g n k"
          by blast
      qed
      then show ?thesis using d False Some ih by (simp add: walk_up_Some)
    qed
  qed
qed

lemma ancestor_chain: "n + k \<le> 7 \<Longrightarrow> ancestor (chain_graph f) n k = Some (n + k)"
  by (induction k arbitrary: n) (simp_all add: chain_graph_def)

text \<open>
  C1, as the code has it. When the camera exists and the ray query returns a non-empty
  list, \<open>processClick\<close> starts at the node of the first (nearest) hit and examines that
  node and its ancestors up to 4 parent links above it, five nodes at most. The
  callback is invoked with node \<open>a\<close> exactly when a callback is registered and \<open>a\<close> is
  the first flagged node of that chain, \<open>k\<close> links above the hit node for some
  \<open>k < 5\<close>: so a flagged 3rd-level ancestor with nothing flagged below it is the
  callback's argument. When none of the five nodes is flagged, no callback is invoked,
  whatever lies further up.
\<close>

theorem processClick_walks_bounded_chain:
  assumes cam: "the_camera (scene_setup w) = Some cam"
    and hits: "intersectObjects w (mouse s) cam (interactableObjects (scene_setup w)) = hit # rest"
  shows "(snd (processClick w s) = Some a \<longleftrightarrow>
       onObjectClicked s \<and>
       (\<exists>k<5. ancestor (graph w) (hit_object hit) k = Some a \<and> flagged (graph w) a
           \<and> unflagged_below (graph w) (hit_object hit) k))
     \<and> (unflagged_below (graph w) (hit_object hit) 5 \<longrightarrow> snd (processClick w s) = None)"
proof -
  have eq: "snd (processClick w s) =
      (case walk_up (graph w) (Some (hit_object hit)) 0 of None \<Rightarrow> None
       | Some f \<Rightarrow> if onObjectClicked s then Some f else None)"
    using cam hits by (simp add: processClick_def Let_def split: option.splits)
  have iff: "snd (processClick w s) = Some b \<longleftrightarrow>
       onObjectClicked s \<and>
       (\<exists>k<5. ancestor (graph w) (hit_object hit) k = Some b \<and> flagged (graph w) b
           \<and> unflagged_below (graph w) (hit_object hit) k)" for b
    using eq walk_up_iff [of "graph w" "hit_object hit" 0 b]
    by (auto split: option.splits)
  have none: "snd (processClick w s) = None" if u: "unflagged_below (graph w) (hit_object hit) 5"
  proof (rule ccontr)
    assume "snd (processClick w s) \<noteq> None"
    then obtain b where "snd (processClick w s) = Some b" by auto
    then obtain k where k: "k < 5" "ancestor (graph w) (hit_object hit) k = Some b"
      "flagged (graph w) b"
      using iff by blast
    from u k(1) k(2) have "\<not> flagged (graph w) b"
      by (auto simp: unflagged_below_iff split: option.splits)
    with k(3) show False by simp
  qed
  show ?thesis using iff [of a] none by blast
qed

theorem processClick_walks_bounded_chain_witness:
  "the_camera (scene_setup (demo_world 3)) = Some demo_camera
   \<and> ancestor (graph (demo_world 3)) 0 3 = Some 3
   \<and> snd (processClick (demo_world 3) demo_input) = Some 3
   \<and> ancestor (graph (demo_world 4)) 0 4 = Some 4
   \<and> snd (processClick (demo_world 4) demo_input) = Some 4"
proof -
  have c3: "the_camera (scene_setup (demo_world 3)) = Some demo_camera"
    and c4: "the_camera (scene_setup (demo_world 4)) = Some demo_camera"
    by (simp_all add: demo_world_def)
  have h3: "intersectObjects (demo_world 3) (mouse demo_input) demo_camera
        (interactableObjects (scene_setup (demo_world 3)))
        = \<lparr>hit_object = 0, hit_distance = 10\<rparr> # []"
    and h4: "intersectObjects (demo_world 4) (mouse demo_input) demo_camera
        (interactableObjects (scene_setup (demo_world 4)))
        = \<lparr>hit_object = 0, hit_distance = 10\<rparr> # []"
    by (simp_all add: demo_world_def)
  have a3: "ancestor (chain_graph 3) 0 3 = Some 3" using ancestor_chain [of 0 3 3] by simp
  have a4: "ancestor (chain_graph 4) 0 4 = Some 4" using ancestor_chain [of 0 4 4] by simp
  have u3: "unflagged_below (chain_graph 3) 0 3"
    by (auto simp: unflagged_below_iff ancestor_chain flagged_chain)
  have u4: "unflagged_below (chain_graph 4) 0 4"
    by (auto simp: unflagged_below_iff ancestor_chain flagged_chain)
  have cb: "onObjectClicked demo_input" by (simp add: demo_input_def)
  have g: "graph (demo_world f) = chain_graph f" for f by (simp add: demo_world_def)
  have "snd (processClick (demo_world 3) demo_input) = Some 3"
    using processClick_walks_bounded_chain [OF c3 h3, of 3] a3 u3 cb
    by (auto simp: g flagged_chain)
  moreover have "snd (processClick (demo_world 4) demo_input) = Some 4"
    using processClick_walks_bounded_chain [OF c4 h4, of 4] a4 u4 cb
    by (auto simp: g flagged_chain)
  ultimately show ?thesis using c3 a3 a4 by (simp add: g)
qed

text \<open>
  The claim as stated fails: with a callback registered and the only flagged node
  exactly 5 parent links above the hit node, no callback is invoked.
\<close>

theorem fifth_ancestor_not_found:
  "the_camera (scene_setup (demo_world 5)) = Some demo_camera
   \<and> intersectObjects (demo_world 5) (mouse demo_input) demo_camera
        (interactableObjects (scene_setup (demo_world 5)))
        = [\<lparr>hit_object = 0, hit_distance = 10\<rparr>]
   \<and> onObjectClicked demo_input
   \<and> ancestor (graph (demo_world 5)) 0 5 = Some 5
   \<and> flagged (graph (demo_world 5)) 5
   \<and> unflagged_below (graph (demo_world 5)) 0 5
   \<and> snd (processClick (demo_world 5) demo_input) = None"
proof -
  have a: "ancestor (chain_graph 5) 0 5 = Some 5" using ancestor_chain [of 0 5 5] by simp
  have u: "unflagged_below (chain_graph 5) 0 5"
    by (auto simp: unflagged_below_iff ancestor_chain flagged_chain)
  have p: "snd (processClick (demo_world 5) demo_input) = None"
    by (simp add: processClick_demo walk_up_chain_5)
  have g: "graph (demo_world 5) = chain_graph 5" by (simp add: demo_world_def)
  have c: "the_camera (scene_setup (demo_world 5)) = Some demo_camera"
    "intersectObjects (demo_world 5) (mouse demo_input) demo_camera
        (interactableObjects (scene_setup (demo_world 5)))
        = [\<lparr>hit_object = 0, hit_distance = 10\<rparr>]"
    "onObjectClicked demo_input"
    by (simp_all add: demo_world_def demo_input_def)
  show ?thesis
    using a u p c by (simp add: g flagged_chain)
qed

subsection \<open>Normalising the angle difference\<close>
















subsection \<open>The interpolation factor\<close>

lemma keep_damping: "dampingFactor (apply_operation w s op) = dampingFactor s"
  by (cases op)
    (auto simp: setEnabled_def setLocked_def setLookTarget_def moveCameraTo_def onMouseDown_def
      onMouseMove_def onMouseUp_def onWheel_def processClick_def update_def Let_def
      split: option.splits list.splits)

lemma keep_damping_run: "dampingFactor (run s wops) = dampingFactor s"
  by (induction s wops rule: run.induct) (simp_all add: keep_damping)

text \<open>
  C5. In an update with a camera, with the configured \<open>dampingFactor\<close> of 5 and a clock
  that has not gone backwards since the last update (so \<open>dt\<close> is not negative): \<open>dt\<close>
  is at most \<open>0.1\<close>, the factor the update applies is
  \<open>clamp(dampingFactor * dt, 0, 1)\<close> and at most 1, and current angle, radius, height
  and look-at point each move toward their targets by that factor. No operation changes
  \<open>dampingFactor\<close>, so it is 5 in every state reached from the constructor's.
\<close>

theorem lerpFactor_equals_clamp:
  assumes cam: "the_camera ss = Some cam"
    and damp: "dampingFactor s = 5"
    and mono: "lastTime s \<le> now"
  shows "update_dt now s \<le> 1 / 10
     \<and> update_lerpFactor now s = clamp (dampingFactor s * update_dt now s) 0 1
     \<and> update_lerpFactor now s \<le> 1
     \<and> currentAngle (fst (update ss now s))
          = currentAngle s + update_angleDiff s * clamp (dampingFactor s * update_dt now s) 0 1
     \<and> currentRadius (fst (update ss now s))
          = currentRadius s
            + (targetRadius s - currentRadius s) * clamp (dampingFactor s * update_dt now s) 0 1
     \<and> currentHeight (fst (update ss now s))
          = currentHeight s
            + (targetHeight s - currentHeight s) * clamp (dampingFactor s * update_dt now s) 0 1
     \<and> currentLook (fst (update ss now s))
          = lerp (currentLook s) (targetLook s) (clamp (dampingFactor s * update_dt now s) 0 1)
     \<and> dampingFactor (run (Input_new t) wops) = 5"
proof -
  have dt: "0 \<le> update_dt now s" "update_dt now s \<le> 1 / 10"
    using mono by (simp_all add: update_dt_def)
  have lf: "update_lerpFactor now s = clamp (dampingFactor s * update_dt now s) 0 1"
    using dt damp by (simp add: update_lerpFactor_def clamp_def)
  have le: "update_lerpFactor now s \<le> 1"
    using dt damp by (simp add: update_lerpFactor_def)
  have st: "currentAngle (fst (update ss now s))
          = currentAngle s + update_angleDiff s * update_lerpFactor now s"
    "currentRadius (fst (update ss now s))
          = currentRadius s + (targetRadius s - currentRadius s) * update_lerpFactor now s"
    "currentHeight (fst (update ss now s))
          = currentHeight s + (targetHeight s - currentHeight s) * update_lerpFactor now s"
    "currentLook (fst (update ss now s))
          = lerp (currentLook s) (targetLook s) (update_lerpFactor now s)"
    using cam by (simp_all add: update_def Let_def)
  have d: "dampingFactor (run (Input_new t) wops) = 5"
    by (simp add: keep_damping_run Input_new_def)
  show ?thesis using dt(2) le d st unfolding lf by simp
qed

theorem lerpFactor_equals_clamp_witness:
  "the_camera (scene_setup (demo_world 3)) = Some demo_camera
   \<and> dampingFactor demo_input = 5
   \<and> lastTime demo_input \<le> 5000
   \<and> update_dt 5000 demo_input = 1 / 10
   \<and> update_lerpFactor 5000 demo_input = 1 / 2
   \<and> update_lerpFactor 5000 demo_input
        = clamp (dampingFactor demo_input * update_dt 5000 demo_input) 0 1
   \<and> update_lerpFactor 16 demo_input = 8 / 100
   \<and> update_lerpFactor 16 demo_input
        = clamp (dampingFactor demo_input * update_dt 16 demo_input) 0 1"
proof -
  have h: "the_camera (scene_setup (demo_world 3)) = Some demo_camera"
    by (simp add: demo_world_def)
  have d: "dampingFactor demo_input = 5" by (simp add: demo_input_def Input_new_def)
  have m: "lastTime demo_input \<le> 5000" "lastTime demo_input \<le> 16"
    by (simp_all add: demo_input_def Input_new_def)
  have v: "update_dt 5000 demo_input = 1 / 10" "update_lerpFactor 5000 demo_input = 1 / 2"
    "update_lerpFactor 16 demo_input = 8 / 100"
    by (simp_all add: update_lerpFactor_def update_dt_def demo_input_def Input_new_def)
  show ?thesis
    using h d m(1) v lerpFactor_equals_clamp [OF h d m(1)] lerpFactor_equals_clamp [OF h d m(2)]
    by simp
qed

end
